theory Spec2Isabelle
  imports Complex_Main
begin

section \<open>The memory monitor of ceci (src/ceci/monitor.py)\<close>

text \<open>
  The monitor samples the resident memory of a process and of its descendants, keeps the
  largest total it has seen (\<open>max_total_rss\<close>) and prints report lines. The operating
  system is read through psutil; its answers are inputs of the model.

  Conventions of the embedding:
  \<^item> Byte counts (\<open>rss\<close>, \<open>vms\<close>, available memory) are \<open>nat\<close>: the kernel's counters
    are unsigned.
  \<^item> A Python float is a \<open>real\<close>; \<open>x / 1e9\<close> is the exact quotient. The rounding of the
    IEEE division is not modelled.
  \<^item> An exception is the \<open>Inl\<close> of a sum (for functions without state) or the
    \<open>Raised\<close> of a \<open>completion\<close> returned with the state and the printed lines.
  \<^item> \<open>print\<close> appends one line to a list of strings.
\<close>

subsection \<open>Exceptions\<close>

text \<open>
  The two exception classes the source names in its \<open>except\<close> clauses, psutil's
  \<open>ZombieProcess\<close> (a subclass of \<open>NoSuchProcess\<close>, hence caught with it), the
  \<open>ValueError\<close> of \<open>time.sleep\<close> on a negative argument, and any other exception.
\<close>

datatype py_error = NoSuchProcess | ZombieProcess | AccessDenied | ValueError | OtherError

text \<open>\<open>except (psutil.NoSuchProcess, psutil.AccessDenied)\<close>\<close>

fun caught :: "py_error \<Rightarrow> bool" where
  "caught NoSuchProcess = True"
| "caught ZombieProcess = True"
| "caught AccessDenied = True"
| "caught ValueError = False"
| "caught OtherError = False"

subsection \<open>What psutil answers\<close>

text \<open>The fields of psutil's \<open>pmem\<close> tuple that the source reads.\<close>

record meminfo =
  rss :: nat
  vms :: nat

text \<open>
  A process handle, as one call of the monitor sees it:
  \<^item> \<open>memory_info\<close>: what \<open>p.memory_info()\<close> answers, or the exception it raises;
  \<^item> \<open>uptime\<close>: the text of \<open>datetime.timedelta(seconds=time.time() - p.create_time())\<close>,
    or the exception \<open>p.create_time()\<close> raises;
  \<^item> \<open>enum_error\<close>: the exception \<open>p.children(...)\<close> raises, if it raises;
  \<^item> \<open>kids\<close>: the handles of the direct children.
\<close>

datatype proc =
  Proc (memory_info: "py_error + meminfo") (uptime: "py_error + string")
       (enum_error: "py_error option") (kids: "proc list")

text \<open>
  psutil walks the table of parent pids from the handle downwards; every process below
  the handle is listed once, whatever its depth.
\<close>

fun descendants :: "proc \<Rightarrow> proc list" where
  "descendants (Proc m u e ks) = concat (map (\<lambda>k. k # descendants k) ks)"

text \<open>\<open>p.children(recursive=...)\<close>\<close>

definition children :: "proc \<Rightarrow> bool \<Rightarrow> py_error + proc list" where
  "children p recursive =
     (case enum_error p of
        Some e \<Rightarrow> Inl e
      | None \<Rightarrow> Inr (if recursive then descendants p else kids p))"

subsection \<open>Formatting\<close>

text \<open>The decimal digits of a natural number, as \<open>str\<close> prints them.\<close>

definition digit :: "nat \<Rightarrow> char" where
  "digit d = ''0123456789'' ! (d mod 10)"

function decimal :: "nat \<Rightarrow> string" where
  "decimal n = (if n < 10 then [digit n] else decimal (n div 10) @ [digit n])"
  by pat_completeness auto
termination
  by (relation "measure id") auto

declare decimal.simps [simp del]

text \<open>The last \<open>k\<close> decimal digits of \<open>n\<close>, with leading zeros.\<close>

fun zero_padded :: "nat \<Rightarrow> nat \<Rightarrow> string" where
  "zero_padded 0 n = []"
| "zero_padded (Suc k) n = zero_padded k (n div 10) @ [digit n]"

text \<open>
  Rounding to the nearest integer, ties to the even one: the rounding of Python's float
  formatting, which is exact on the value of the float.
\<close>

definition round_half_even :: "real \<Rightarrow> nat" where
  "round_half_even y =
     (let f = nat \<lfloor>y\<rfloor>; r = y - of_int \<lfloor>y\<rfloor> in
      if r < 1 / 2 then f
      else if 1 / 2 < r then f + 1
      else if even f then f else f + 1)"

text \<open>\<open>format(x, '.kf')\<close>\<close>

definition fmt_f :: "nat \<Rightarrow> real \<Rightarrow> string" where
  "fmt_f k x =
     (let n = round_half_even (\<bar>x\<bar> * 10 ^ k) in
      (if x < 0 then ''-'' else '''') @ decimal (n div 10 ^ k) @
      (if k = 0 then '''' else ''.'' @ zero_padded k n))"

subsection \<open>The monitor\<close>

text \<open>
  The attributes of \<open>MemoryMonitor\<close>. \<open>self.process\<close> is a handle that never changes;
  what it answers changes with the operating system, so each operation takes the answers
  (a \<open>proc\<close>) as an argument.
\<close>

record monitor =
  should_continue :: bool
  interval :: real
  max_total_rss :: real

text \<open>\<open>__init__\<close>\<close>

definition init :: "real \<Rightarrow> monitor" where
  "init iv = \<lparr>should_continue = True, interval = iv, max_total_rss = 0\<rparr>"

subsection \<open>get_total_rss_gb\<close>

text \<open>
  The \<open>for\<close> loop over the children: a child whose query raises one of the caught
  exceptions is skipped; any other exception leaves the loop.
\<close>

fun add_children :: "nat \<Rightarrow> proc list \<Rightarrow> py_error + nat" where
  "add_children total_rss [] = Inr total_rss"
| "add_children total_rss (child # rest) =
     (case memory_info child of
        Inr child_mem \<Rightarrow> add_children (total_rss + rss child_mem) rest
      | Inl e \<Rightarrow> if caught e then add_children total_rss rest else Inl e)"

definition get_total_rss_gb :: "proc \<Rightarrow> py_error + real" where
  "get_total_rss_gb p =
     (case memory_info p of
        Inl e \<Rightarrow> if caught e then Inr 0 else Inl e
      | Inr mem \<Rightarrow>
          (case children p True of
             Inl e \<Rightarrow> if caught e then Inr (real (rss mem) / 10 ^ 9) else Inl e
           | Inr cs \<Rightarrow>
               (case add_children (rss mem) cs of
                  Inl e \<Rightarrow> Inl e
                | Inr total_rss \<Rightarrow> Inr (real total_rss / 10 ^ 9))))"

subsection \<open>Printed lines\<close>

text \<open>The summary line of \<open>stop\<close> and of the end of \<open>_run\<close>.\<close>

definition summary_line :: "real \<Rightarrow> string" where
  "summary_line peak =
     ''MemoryMonitor: Maximum total memory (including children): '' @ fmt_f 3 peak @ '' GB''"

text \<open>The line \<open>log\<close> prints; \<open>dt\<close> is the text of the elapsed time.\<close>

definition report_line :: "string \<Rightarrow> real \<Rightarrow> real \<Rightarrow> real \<Rightarrow> real \<Rightarrow> string" where
  "report_line dt rss_gb total_rss vms_gb avail =
     ''MemoryMonitor Time: '' @ dt @ ''   Physical mem: '' @ fmt_f 3 rss_gb @ '' GB   '' @
     ''Total (with children): '' @ fmt_f 3 total_rss @ '' GB   '' @
     ''Virtual mem: '' @ fmt_f 3 vms_gb @ '' GB   '' @
     ''Available mem: '' @ fmt_f 1 avail @ '' GB''"

subsection \<open>stop and log\<close>

text \<open>How a method ends: it returns, or an exception leaves it.\<close>

datatype completion = Returned | Raised py_error

text \<open>
  \<open>stop\<close>, with the answers \<open>p\<close> of \<open>self.process\<close> at the time of the call. The result
  is how the call ended, the monitor afterwards and the lines printed.
\<close>

definition stop :: "monitor \<Rightarrow> proc \<Rightarrow> completion \<times> monitor \<times> string list" where
  "stop m p =
     (let m1 = m\<lparr>should_continue := False\<rparr> in
      case get_total_rss_gb p of
        Inr final_total \<Rightarrow>
          (let m2 = (if max_total_rss m1 < final_total
                     then m1\<lparr>max_total_rss := final_total\<rparr> else m1)
           in (Returned, m2, [summary_line (max_total_rss m2)]))
      | Inl e \<Rightarrow>
          if caught e then (Returned, m1, [summary_line (max_total_rss m1)])
          else (Raised e, m1, []))"

text \<open>
  \<open>log\<close>, named \<open>log_report\<close> here since \<open>log\<close> is the logarithm, with the
  answers \<open>p\<close> of the process and \<open>available\<close>, the answer of
  \<open>psutil.virtual_memory().available\<close>.
\<close>

definition log_report :: "monitor \<Rightarrow> proc \<Rightarrow> nat \<Rightarrow> completion \<times> monitor \<times> string list" where
  "log_report m p available =
     (case memory_info p of
        Inl e \<Rightarrow> (Raised e, m, [])
      | Inr mem \<Rightarrow>
          (case uptime p of
             Inl e \<Rightarrow> (Raised e, m, [])
           | Inr dt \<Rightarrow>
               (let rss_gb = real (rss mem) / 10 ^ 9;
                    vms_gb = real (vms mem) / 10 ^ 9
                in case get_total_rss_gb p of
                     Inl e \<Rightarrow> (Raised e, m, [])
                   | Inr total_rss \<Rightarrow>
                       (let m1 = (if max_total_rss m < total_rss
                                  then m\<lparr>max_total_rss := total_rss\<rparr> else m);
                            avail = real available / 10 ^ 9
                        in (Returned, m1, [report_line dt rss_gb total_rss vms_gb avail])))))"

subsection \<open>_run\<close>

text \<open>
  One turn of the \<open>while\<close> loop reads the world once. A \<open>tick\<close> is what it finds:
  \<^item> \<open>host_stop\<close>: the other thread called \<open>stop\<close> since the last turn, and these are
    the answers of the process that call saw;
  \<^item> \<open>main_alive\<close>: the answer of \<open>threading.main_thread().is_alive()\<close>;
  \<^item> \<open>view\<close>, \<open>available\<close>: the answers of the process and of the system at this turn.
\<close>

record tick =
  host_stop :: "proc option"
  main_alive :: bool
  view :: proc
  available :: nat

text \<open>
  The call of \<open>stop\<close> by the other thread. An exception of that call stays in the other
  thread; the flag is already cleared then.
\<close>

definition host_step :: "monitor \<Rightarrow> proc option \<Rightarrow> monitor \<times> string list" where
  "host_step m call =
     (case call of
        None \<Rightarrow> (m, [])
      | Some p \<Rightarrow> (case stop m p of (c, m', out) \<Rightarrow> (m', out)))"

text \<open>
  How the thread of \<open>_run\<close> goes on a list of ticks: the loop is left (\<open>Exited\<close>), an
  exception ends the thread (\<open>Died\<close>), or the loop is still turning when the ticks are
  used up (\<open>Running\<close>). Each carries the monitor and the lines printed so far.
\<close>

datatype outcome =
  Exited monitor "string list"
| Died py_error monitor "string list"
| Running monitor "string list"

fun printed_first :: "string list \<Rightarrow> outcome \<Rightarrow> outcome" where
  "printed_first ls (Exited m out) = Exited m (ls @ out)"
| "printed_first ls (Died e m out) = Died e m (ls @ out)"
| "printed_first ls (Running m out) = Running m (ls @ out)"

text \<open>The \<open>while\<close> loop of \<open>_run\<close>; \<open>time.sleep\<close> raises on a negative interval.\<close>

fun sampling_loop :: "monitor \<Rightarrow> tick list \<Rightarrow> outcome" where
  "sampling_loop m [] = Running m []"
| "sampling_loop m (t # ts) =
     (case host_step m (host_stop t) of (m0, out0) \<Rightarrow>
        printed_first out0
          (if \<not> main_alive t then Exited m0 []
           else if \<not> should_continue m0 then Exited m0 []
           else (case log_report m0 (view t) (available t) of
                   (Raised e, m1, out1) \<Rightarrow> Died e m1 out1
                 | (Returned, m1, out1) \<Rightarrow>
                     if interval m1 < 0 then Died ValueError m1 out1
                     else printed_first out1 (sampling_loop m1 ts))))"

text \<open>The lines after the loop (lines 163-167).\<close>

definition closing_lines :: "monitor \<Rightarrow> string list" where
  "closing_lines m =
     (if 0 < max_total_rss m then [summary_line (max_total_rss m)] else [])"

text \<open>\<open>_run\<close>, named \<open>run\<close> here: the loop, then the closing lines if the loop was left.\<close>

definition run :: "monitor \<Rightarrow> tick list \<Rightarrow> outcome" where
  "run m ts =
     (case sampling_loop m ts of
        Exited m' out \<Rightarrow> Exited m' (out @ closing_lines m')
      | Died e m' out \<Rightarrow> Died e m' out
      | Running m' out \<Rightarrow> Running m' out)"

subsection \<open>Calls in sequence\<close>

text \<open>
  The two methods that write \<open>max_total_rss\<close>, as calls made one after the other on one
  monitor, and the monitor they leave.
\<close>

datatype call = Log proc nat | Stop proc

fun apply_call :: "monitor \<Rightarrow> call \<Rightarrow> monitor" where
  "apply_call m (Log p a) = fst (snd (log_report m p a))"
| "apply_call m (Stop p) = fst (snd (stop m p))"

definition after :: "monitor \<Rightarrow> call list \<Rightarrow> monitor" where
  "after m cs = foldl apply_call m cs"

text \<open>
  The total a call observes, when it gets as far as observing one: \<open>log\<close> reaches
  \<open>get_total_rss_gb\<close> only after its own two queries of the process.
\<close>

fun sample :: "call \<Rightarrow> real option" where
  "sample (Log p a) =
     (case memory_info p of
        Inl e \<Rightarrow> None
      | Inr mem \<Rightarrow>
          (case uptime p of
             Inl e \<Rightarrow> None
           | Inr dt \<Rightarrow> (case get_total_rss_gb p of Inl e \<Rightarrow> None | Inr v \<Rightarrow> Some v)))"
| "sample (Stop p) = (case get_total_rss_gb p of Inl e \<Rightarrow> None | Inr v \<Rightarrow> Some v)"

definition samples :: "call list \<Rightarrow> real list" where
  "samples cs = List.map_filter sample cs"

subsection \<open>Words for the process tree\<close>

text \<open>A process whose memory query answers; its resident size; a process the loop over
  the children gets past (it answers, or raises a caught exception).\<close>

definition queryable :: "proc \<Rightarrow> bool" where
  "queryable c = (case memory_info c of Inr mem \<Rightarrow> True | Inl e \<Rightarrow> False)"

definition rss_of :: "proc \<Rightarrow> nat" where
  "rss_of c = (case memory_info c of Inr mem \<Rightarrow> rss mem | Inl e \<Rightarrow> 0)"

definition skippable :: "proc \<Rightarrow> bool" where
  "skippable c = (case memory_info c of Inr mem \<Rightarrow> True | Inl e \<Rightarrow> caught e)"

text \<open>A process whose total is zero or cannot be taken, and a tick with only such.\<close>

definition zero_total :: "proc \<Rightarrow> bool" where
  "zero_total p = (case get_total_rss_gb p of Inr v \<Rightarrow> v = 0 | Inl e \<Rightarrow> True)"

definition quiet :: "tick \<Rightarrow> bool" where
  "quiet t = (zero_total (view t) \<and>
              (case host_stop t of None \<Rightarrow> True | Some p \<Rightarrow> zero_total p))"

subsection \<open>Two updates of the peak at once\<close>

text \<open>
  Both \<open>stop\<close> (lines 71-72) and \<open>log\<close> (lines 138-139) update the peak with
  \<^verbatim>\<open>if total > self.max_total_rss: self.max_total_rss = total\<close>
  and the source holds no lock around it. The update is two steps, the test, which reads
  the attribute, and the assignment, which writes it; the other thread may run between
  them. An \<open>updater\<close> is a thread inside this statement with the total it observed.
\<close>

datatype updater = Testing real | Storing real | Finished

fun updater_step :: "real \<Rightarrow> updater \<Rightarrow> real \<times> updater" where
  "updater_step peak (Testing v) = (peak, if peak < v then Storing v else Finished)"
| "updater_step peak (Storing v) = (v, Finished)"
| "updater_step peak Finished = (peak, Finished)"

datatype thread = Stopper | Sampler

text \<open>The shared peak and the two threads, run under a schedule.\<close>

fun interleave :: "thread list \<Rightarrow> real \<times> updater \<times> updater \<Rightarrow> real \<times> updater \<times> updater" where
  "interleave [] s = s"
| "interleave (Stopper # sched) (peak, a, b) =
     (case updater_step peak a of (peak', a') \<Rightarrow> interleave sched (peak', a', b))"
| "interleave (Sampler # sched) (peak, a, b) =
     (case updater_step peak b of (peak', b') \<Rightarrow> interleave sched (peak', a, b'))"

text \<open>One thread going through its update with nothing in between.\<close>

definition update_alone :: "real \<Rightarrow> real \<Rightarrow> real" where
  "update_alone peak v =
     (case updater_step peak (Testing v) of (peak', u) \<Rightarrow> fst (updater_step peak' u))"

text \<open>
  What every schedule keeps true, for threads that observed \<open>a\<close> and \<open>b\<close> and a peak
  that was \<open>p0\<close> before them: the peak is not below \<open>p0\<close>; a thread about to store has
  seen a peak below its total; a thread that has finished left the peak at its total or
  above, unless the other thread has stored since.
\<close>

definition steady :: "real \<Rightarrow> real \<Rightarrow> real \<Rightarrow> real \<times> updater \<times> updater \<Rightarrow> bool" where
  "steady p0 a b s =
     (case s of (peak, ta, tb) \<Rightarrow>
        p0 \<le> peak \<and>
        (ta = Testing a \<or> (ta = Storing a \<and> p0 < a) \<or> (ta = Finished \<and> (a \<le> peak \<or> peak = b))) \<and>
        (tb = Testing b \<or> (tb = Storing b \<and> p0 < b) \<or> (tb = Finished \<and> (b \<le> peak \<or> peak = a))))"

subsection \<open>The two threads, step by step\<close>

text \<open>
  \<open>stop\<close> as the thread that calls it goes through it, one statement at a turn: the flag
  (line 67), the final total (line 70), the test (line 71), the assignment (line 72), the
  print (lines 77-80). The state of that thread is the statement it is at, with the total
  it holds; \<open>p\<close> is what \<open>self.process\<close> answers to it.
\<close>

datatype stop_pc =
  ClearFlag | TakeSample | StopTest real | StopStore real | StopPrint
| StopRaised py_error | StopReturned

fun stop_step :: "proc \<Rightarrow> monitor \<times> string list \<times> stop_pc \<Rightarrow> monitor \<times> string list \<times> stop_pc" where
  "stop_step p (m, out, ClearFlag) = (m\<lparr>should_continue := False\<rparr>, out, TakeSample)"
| "stop_step p (m, out, TakeSample) =
     (case get_total_rss_gb p of
        Inr final_total \<Rightarrow> (m, out, StopTest final_total)
      | Inl e \<Rightarrow> if caught e then (m, out, StopPrint) else (m, out, StopRaised e))"
| "stop_step p (m, out, StopTest final_total) =
     (m, out, if max_total_rss m < final_total then StopStore final_total else StopPrint)"
| "stop_step p (m, out, StopStore final_total) =
     (m\<lparr>max_total_rss := final_total\<rparr>, out, StopPrint)"
| "stop_step p (m, out, StopPrint) = (m, out @ [summary_line (max_total_rss m)], StopReturned)"
| "stop_step p (m, out, StopRaised e) = (m, out, StopRaised e)"
| "stop_step p (m, out, StopReturned) = (m, out, StopReturned)"

fun stop_finished :: "stop_pc \<Rightarrow> bool" where
  "stop_finished StopReturned = True"
| "stop_finished (StopRaised e) = True"
| "stop_finished pc = False"

text \<open>
  The thread of \<open>_run\<close> in the same way: the two tests of the loop (lines 156-158), the
  queries of \<open>log\<close> (lines 126-135), its test (line 138), its assignment (line 139), its
  print (lines 141-150), the sleep (line 160), the lines after the loop (lines 163-167).
  Inside \<open>log\<close> the thread holds the text of the elapsed time, the two sizes of the
  process and the total. At each turn it is given the answers of that moment: whether
  the main thread is alive, the process, the available memory.
\<close>

datatype sampler_pc =
  AtWhile | AtLog
| LogTest string real real real | LogStore string real real real
| LogPrint string real real real
| Sleeping | AfterLoop | Ended | Crashed py_error

fun sampler_step ::
  "bool \<Rightarrow> proc \<Rightarrow> nat \<Rightarrow> monitor \<times> string list \<times> sampler_pc \<Rightarrow> monitor \<times> string list \<times> sampler_pc" where
  "sampler_step alive p avail (m, out, AtWhile) =
     (m, out, if \<not> alive then AfterLoop
              else if \<not> should_continue m then AfterLoop else AtLog)"
| "sampler_step alive p avail (m, out, AtLog) =
     (case memory_info p of
        Inl e \<Rightarrow> (m, out, Crashed e)
      | Inr mem \<Rightarrow>
          (case uptime p of
             Inl e \<Rightarrow> (m, out, Crashed e)
           | Inr dt \<Rightarrow>
               (case get_total_rss_gb p of
                  Inl e \<Rightarrow> (m, out, Crashed e)
                | Inr total_rss \<Rightarrow>
                    (m, out, LogTest dt (real (rss mem) / 10 ^ 9) (real (vms mem) / 10 ^ 9)
                                     total_rss))))"
| "sampler_step alive p avail (m, out, LogTest dt rss_gb vms_gb total_rss) =
     (m, out, if max_total_rss m < total_rss then LogStore dt rss_gb vms_gb total_rss
              else LogPrint dt rss_gb vms_gb total_rss)"
| "sampler_step alive p avail (m, out, LogStore dt rss_gb vms_gb total_rss) =
     (m\<lparr>max_total_rss := total_rss\<rparr>, out, LogPrint dt rss_gb vms_gb total_rss)"
| "sampler_step alive p avail (m, out, LogPrint dt rss_gb vms_gb total_rss) =
     (m, out @ [report_line dt rss_gb total_rss vms_gb (real avail / 10 ^ 9)], Sleeping)"
| "sampler_step alive p avail (m, out, Sleeping) =
     (m, out, if interval m < 0 then Crashed ValueError else AtWhile)"
| "sampler_step alive p avail (m, out, AfterLoop) = (m, out @ closing_lines m, Ended)"
| "sampler_step alive p avail (m, out, Ended) = (m, out, Ended)"
| "sampler_step alive p avail (m, out, Crashed e) = (m, out, Crashed e)"

text \<open>
  Whose turn it is, and the two threads on one monitor and one output under a list of
  turns; \<open>p\<close> is what the process answers to \<open>stop\<close>.
\<close>

datatype turn = StopTurn | SamplerTurn bool proc nat

fun is_stop_turn :: "turn \<Rightarrow> bool" where
  "is_stop_turn StopTurn = True"
| "is_stop_turn (SamplerTurn alive v avail) = False"

fun schedule ::
  "proc \<Rightarrow> turn list \<Rightarrow> monitor \<times> string list \<times> stop_pc \<times> sampler_pc \<Rightarrow>
   monitor \<times> string list \<times> stop_pc \<times> sampler_pc" where
  "schedule p [] s = s"
| "schedule p (StopTurn # ts) (m, out, sp, lp) =
     (case stop_step p (m, out, sp) of (m', out', sp') \<Rightarrow> schedule p ts (m', out', sp', lp))"
| "schedule p (SamplerTurn alive v avail # ts) (m, out, sp, lp) =
     (case sampler_step alive v avail (m, out, lp) of
        (m', out', lp') \<Rightarrow> schedule p ts (m', out', sp, lp'))"

text \<open>
  The turns \<open>log\<close> takes from its queries to the sleep: four when it assigns the peak,
  three when it does not (or when a query raises, which ends the thread at once).
\<close>

definition log_turns :: "monitor \<Rightarrow> proc \<Rightarrow> nat" where
  "log_turns m p =
     (case get_total_rss_gb p of
        Inr total_rss \<Rightarrow> if max_total_rss m < total_rss then 4 else 3
      | Inl e \<Rightarrow> 3)"

text \<open>The statements \<open>stop\<close> still has before it, at most.\<close>

fun stop_rank :: "stop_pc \<Rightarrow> nat" where
  "stop_rank ClearFlag = 5"
| "stop_rank TakeSample = 4"
| "stop_rank (StopTest v) = 3"
| "stop_rank (StopStore v) = 2"
| "stop_rank StopPrint = 1"
| "stop_rank (StopRaised e) = 0"
| "stop_rank StopReturned = 0"

subsection \<open>Sample inputs\<close>

text \<open>A process with a child and a grandchild, and a second child.\<close>

definition tree3 :: proc where
  "tree3 = Proc (Inr \<lparr>rss = 500000000, vms = 900000000\<rparr>) (Inr ''0:01:40'') None
     [Proc (Inr \<lparr>rss = 300000000, vms = 1\<rparr>) (Inr ''0:00:10'') None
        [Proc (Inr \<lparr>rss = 200000000, vms = 2\<rparr>) (Inr ''0:00:05'') None []],
      Proc (Inr \<lparr>rss = 1000000000, vms = 3\<rparr>) (Inr ''0:00:07'') None []]"

text \<open>A process that has exited; a tree with a dead child (whose own child still
  answers) and a child that denies access; one process of exactly \<open>10^9\<close> bytes; a
  process whose memory query fails with an exception the source does not catch.\<close>

definition gone :: proc where
  "gone = Proc (Inl NoSuchProcess) (Inl NoSuchProcess) (Some NoSuchProcess) []"

definition tree_dead_child :: proc where
  "tree_dead_child = Proc (Inr \<lparr>rss = 500000000, vms = 900000000\<rparr>) (Inr ''0:01:40'') None
     [Proc (Inl NoSuchProcess) (Inl NoSuchProcess) (Some NoSuchProcess)
        [Proc (Inr \<lparr>rss = 200000000, vms = 2\<rparr>) (Inr ''0:00:05'') None []],
      Proc (Inl AccessDenied) (Inr ''0:00:09'') None [],
      Proc (Inr \<lparr>rss = 1300000000, vms = 3\<rparr>) (Inr ''0:00:07'') None []]"

definition solo :: proc where
  "solo = Proc (Inr \<lparr>rss = 1000000000, vms = 2500000000\<rparr>) (Inr ''0:00:30'') None []"

definition broken :: proc where
  "broken = Proc (Inl OtherError) (Inr ''0:00:30'') None []"

text \<open>A process that holds no memory. Ticks: the main thread alive or dead, the process
  seen being one of the samples; a tick at which the other thread has called \<open>stop\<close>.\<close>

definition idle :: proc where
  "idle = Proc (Inr \<lparr>rss = 0, vms = 0\<rparr>) (Inr ''0:00:01'') None []"

definition tick_alive :: "proc \<Rightarrow> tick" where
  "tick_alive p = \<lparr>host_stop = None, main_alive = True, view = p, available = 16000000000\<rparr>"

definition tick_dead :: "proc \<Rightarrow> tick" where
  "tick_dead p = \<lparr>host_stop = None, main_alive = False, view = p, available = 16000000000\<rparr>"

definition tick_stopped :: "proc \<Rightarrow> tick" where
  "tick_stopped p = \<lparr>host_stop = Some p, main_alive = True, view = p, available = 16000000000\<rparr>"

text \<open>Processes of 5 and of 7 gigabytes, and one of \<open>2^30\<close> bytes.\<close>

definition five_gb :: proc where
  "five_gb = Proc (Inr \<lparr>rss = 5000000000, vms = 6000000000\<rparr>) (Inr ''0:02:00'') None []"

definition seven_gb :: proc where
  "seven_gb = Proc (Inr \<lparr>rss = 7000000000, vms = 8000000000\<rparr>) (Inr ''0:02:00'') None []"

definition gibi :: proc where
  "gibi = Proc (Inr \<lparr>rss = 1073741824, vms = 1073741824\<rparr>) (Inr ''0:00:02'') None []"

text \<open>A process whose size is no round number of megabytes.\<close>

definition ragged :: proc where
  "ragged = Proc (Inr \<lparr>rss = 1234567890, vms = 2345678901\<rparr>) (Inr ''0:00:03'') None []"

section \<open>Properties\<close>

subsection \<open>The aggregator\<close>

lemma add_children_skips:
  "list_all skippable cs \<Longrightarrow>
   add_children t cs = Inr (t + sum_list (map rss_of (filter queryable cs)))"
  by (induction cs arbitrary: t)
     (auto simp: skippable_def queryable_def rss_of_def split: sum.splits)

lemma add_children_all:
  "list_all queryable cs \<Longrightarrow> add_children t cs = Inr (t + sum_list (map rss_of cs))"
  by (induction cs arbitrary: t)
     (auto simp: queryable_def rss_of_def split: sum.splits)

lemma add_children_raises: "add_children t cs = Inl e \<Longrightarrow> \<not> caught e"
  by (induction cs arbitrary: t) (auto split: sum.splits if_splits)

lemma get_total_raises: "get_total_rss_gb p = Inl e \<Longrightarrow> \<not> caught e"
  by (auto simp: get_total_rss_gb_def split: sum.splits if_splits dest: add_children_raises)

lemma get_total_nonneg: "get_total_rss_gb p = Inr x \<Longrightarrow> 0 \<le> x"
  by (auto simp: get_total_rss_gb_def split: sum.splits if_splits)

lemma kids_descendants: "set (kids p) \<subseteq> set (descendants p)"
  by (cases p) auto

lemma descendants_nested:
  "k \<in> set (kids p) \<Longrightarrow> set (descendants k) \<subseteq> set (descendants p)"
  by (cases p) auto

text \<open>
  C2. When the process and every descendant answer the memory query and the enumeration
  succeeds, \<open>get_total_rss_gb\<close> returns the resident size of the process plus the sum of
  the resident sizes of all its descendants, of every depth, divided by \<open>10^9\<close>.
\<close>

theorem tree_total:
  assumes "memory_info p = Inr mem" and "enum_error p = None"
    and "list_all queryable (descendants p)"
  shows "get_total_rss_gb p =
           Inr (real (rss mem + sum_list (map rss_of (descendants p))) / 10 ^ 9)"
  using assms by (simp add: get_total_rss_gb_def children_def add_children_all)

theorem tree_total_witness:
  "memory_info tree3 = Inr \<lparr>rss = 500000000, vms = 900000000\<rparr> \<and> enum_error tree3 = None \<and>
   list_all queryable (descendants tree3) \<and> length (descendants tree3) = 3 \<and>
   get_total_rss_gb tree3 = Inr 2"
proof -
  have a: "memory_info tree3 = Inr \<lparr>rss = 500000000, vms = 900000000\<rparr>"
    by (simp add: tree3_def)
  have b: "enum_error tree3 = None"
    by (simp add: tree3_def)
  have c: "list_all queryable (descendants tree3)"
    by (simp add: tree3_def queryable_def)
  have d: "sum_list (map rss_of (descendants tree3)) = 1500000000"
    by (simp add: tree3_def rss_of_def)
  show ?thesis
    using tree_total [OF a b c] a b c d by (simp add: tree3_def)
qed

text \<open>
  C3. \<open>get_total_rss_gb\<close> raises for no anticipated absence: when the memory query of the
  root raises a caught exception the result is zero; when a descendant's query raises a
  caught exception that descendant is left out and the result is the sum over the root
  and the descendants that answer; when the enumeration itself raises a caught exception
  the result is the root's own size.
\<close>

theorem graceful:
  "(memory_info p = Inl e \<and> caught e \<longrightarrow> get_total_rss_gb p = Inr 0) \<and>
   (memory_info p = Inr mem \<and> enum_error p = None \<and> list_all skippable (descendants p) \<longrightarrow>
      get_total_rss_gb p =
        Inr (real (rss mem + sum_list (map rss_of (filter queryable (descendants p)))) / 10 ^ 9)) \<and>
   (memory_info p = Inr mem \<and> enum_error p = Some e \<and> caught e \<longrightarrow>
      get_total_rss_gb p = Inr (real (rss mem) / 10 ^ 9))"
  by (simp add: get_total_rss_gb_def children_def add_children_skips)

theorem graceful_witness:
  "get_total_rss_gb gone = Inr 0 \<and>
   list_all skippable (descendants tree_dead_child) \<and>
   \<not> list_all queryable (descendants tree_dead_child) \<and>
   get_total_rss_gb tree_dead_child = Inr 2"
proof -
  have a: "memory_info gone = Inl NoSuchProcess \<and> caught NoSuchProcess"
    by (simp add: gone_def)
  have b: "memory_info tree_dead_child = Inr \<lparr>rss = 500000000, vms = 900000000\<rparr> \<and>
           enum_error tree_dead_child = None \<and> list_all skippable (descendants tree_dead_child)"
    by (simp add: tree_dead_child_def skippable_def)
  have c: "sum_list (map rss_of (filter queryable (descendants tree_dead_child))) = 1500000000"
    by (simp add: tree_dead_child_def rss_of_def queryable_def)
  have d: "\<not> list_all queryable (descendants tree_dead_child)"
    by (simp add: tree_dead_child_def queryable_def)
  from graceful [of gone NoSuchProcess] a have 1: "get_total_rss_gb gone = Inr 0"
    by blast
  from graceful [of tree_dead_child _ "\<lparr>rss = 500000000, vms = 900000000\<rparr>"] b c
  have 2: "get_total_rss_gb tree_dead_child = Inr 2"
    by simp
  show ?thesis using 1 2 b d by simp
qed

subsection \<open>The peak\<close>

lemma stop_peak:
  "max_total_rss (fst (snd (stop m p))) =
     (case get_total_rss_gb p of Inr v \<Rightarrow> max (max_total_rss m) v | Inl e \<Rightarrow> max_total_rss m)"
  by (simp add: stop_def Let_def split: sum.splits)

lemma log_peak:
  "max_total_rss (fst (snd (log_report m p a))) =
     (case sample (Log p a) of Some v \<Rightarrow> max (max_total_rss m) v | None \<Rightarrow> max_total_rss m)"
  by (simp add: log_report_def Let_def split: sum.splits)

lemma apply_call_peak:
  "max_total_rss (apply_call m c) =
     (case sample c of Some v \<Rightarrow> max (max_total_rss m) v | None \<Rightarrow> max_total_rss m)"
  by (cases c) (simp_all add: stop_peak log_peak split: sum.splits)

lemma samples_Cons:
  "samples (c # cs) = (case sample c of None \<Rightarrow> samples cs | Some v \<Rightarrow> v # samples cs)"
  by (simp add: samples_def List.map_filter_simps split: option.splits)

lemma samples_Nil: "samples [] = []"
  by (simp add: samples_def List.map_filter_simps)

lemma Max_insert_insert:
  "finite S \<Longrightarrow> Max (insert (max a v) S) = Max (insert a (insert (v::real) S))"
  by (cases "S = {}") (simp_all add: max.assoc max.commute)

lemma after_peak:
  "max_total_rss (after m cs) = Max (insert (max_total_rss m) (set (samples cs)))"
proof (induction cs arbitrary: m)
  case Nil
  show ?case by (simp add: after_def samples_Nil)
next
  case (Cons c cs)
  have "max_total_rss (after m (c # cs)) = max_total_rss (after (apply_call m c) cs)"
    by (simp add: after_def)
  also have "\<dots> = Max (insert (max_total_rss (apply_call m c)) (set (samples cs)))"
    by (rule Cons.IH)
  also have "\<dots> = Max (insert (max_total_rss m) (set (samples (c # cs))))"
    by (cases "sample c") (simp_all add: apply_call_peak samples_Cons Max_insert_insert)
  finally show ?case .
qed




text \<open>The sample inputs, evaluated.\<close>

lemma total_solo: "get_total_rss_gb solo = Inr 1"
  by (simp add: solo_def get_total_rss_gb_def children_def)

lemma total_tree3: "get_total_rss_gb tree3 = Inr 2"
  by (simp add: tree3_def get_total_rss_gb_def children_def)

lemma total_gone: "get_total_rss_gb gone = Inr 0"
  by (simp add: gone_def get_total_rss_gb_def)

lemma total_dead_child: "get_total_rss_gb tree_dead_child = Inr 2"
  by (simp add: tree_dead_child_def get_total_rss_gb_def children_def)

lemma total_broken: "get_total_rss_gb broken = Inl OtherError"
  by (simp add: broken_def get_total_rss_gb_def)







lemma get_total_root_absent:
  "memory_info p = Inl e \<Longrightarrow> caught e \<Longrightarrow> get_total_rss_gb p = Inr 0"
  by (simp add: get_total_rss_gb_def)

lemma get_total_skips:
  "memory_info p = Inr mem \<Longrightarrow> enum_error p = None \<Longrightarrow> list_all skippable (descendants p) \<Longrightarrow>
   get_total_rss_gb p =
     Inr (real (rss mem + sum_list (map rss_of (filter queryable (descendants p)))) / 10 ^ 9)"
  by (simp add: get_total_rss_gb_def children_def add_children_skips)

lemma get_total_no_enum:
  "memory_info p = Inr mem \<Longrightarrow> enum_error p = Some e \<Longrightarrow> caught e \<Longrightarrow>
   get_total_rss_gb p = Inr (real (rss mem) / 10 ^ 9)"
  by (simp add: get_total_rss_gb_def children_def)

text \<open>
  C10. No caught exception (process gone, zombie, access denied) leaves
  \<open>get_total_rss_gb\<close>; every value it returns is at least 0; when every failure in the
  tree is a caught one it returns a value; and the peak of a monitor, after any calls of
  \<open>log\<close> and \<open>stop\<close>, is at least 0.
\<close>

theorem total_safe:
  "(\<forall>e. get_total_rss_gb p = Inl e \<longrightarrow> \<not> caught e) \<and>
   (\<forall>x. get_total_rss_gb p = Inr x \<longrightarrow> 0 \<le> x) \<and>
   ((\<forall>e. memory_info p = Inl e \<longrightarrow> caught e) \<and> (\<forall>e. enum_error p = Some e \<longrightarrow> caught e) \<and>
      list_all skippable (descendants p) \<longrightarrow> (\<exists>x. get_total_rss_gb p = Inr x \<and> 0 \<le> x)) \<and>
   0 \<le> max_total_rss (after (init iv) cs)"
proof (intro conjI allI impI)
  fix e assume "get_total_rss_gb p = Inl e"
  then show "\<not> caught e" by (rule get_total_raises)
next
  fix x assume "get_total_rss_gb p = Inr x"
  then show "0 \<le> x" by (rule get_total_nonneg)
next
  assume h: "(\<forall>e. memory_info p = Inl e \<longrightarrow> caught e) \<and>
             (\<forall>e. enum_error p = Some e \<longrightarrow> caught e) \<and> list_all skippable (descendants p)"
  have "\<exists>x. get_total_rss_gb p = Inr x"
  proof (cases "memory_info p")
    case (Inl e)
    with h show ?thesis by (blast intro: get_total_root_absent)
  next
    case (Inr mem)
    with h show ?thesis
      by (cases "enum_error p") (blast intro: get_total_skips get_total_no_enum)+
  qed
  then obtain x where x: "get_total_rss_gb p = Inr x" ..
  with get_total_nonneg [OF x] show "\<exists>x. get_total_rss_gb p = Inr x \<and> 0 \<le> x" by blast
next
  have "max_total_rss (init iv) \<le> Max (insert (max_total_rss (init iv)) (set (samples cs)))"
    by simp
  then show "0 \<le> max_total_rss (after (init iv) cs)"
    by (simp add: after_peak init_def)
qed

theorem total_safe_witness:
  "get_total_rss_gb broken = Inl OtherError \<and> \<not> caught OtherError \<and>
   get_total_rss_gb tree_dead_child = Inr 2 \<and> (0::real) \<le> 2 \<and>
   list_all skippable (descendants tree_dead_child) \<and>
   0 \<le> max_total_rss (after (init 30) [Log tree3 15000000000, Stop gone])"
proof -
  have sk: "list_all skippable (descendants tree_dead_child)"
    by (simp add: tree_dead_child_def skippable_def)
  have h: "(\<forall>e. memory_info tree_dead_child = Inl e \<longrightarrow> caught e) \<and>
           (\<forall>e. enum_error tree_dead_child = Some e \<longrightarrow> caught e)"
    by (simp add: tree_dead_child_def)
  note t1 = total_safe [of broken 30 "[Log tree3 15000000000, Stop gone]"]
  note t2 = total_safe [of tree_dead_child 30 "[Log tree3 15000000000, Stop gone]"]
  from t1 total_broken have 1: "\<not> caught OtherError" by blast
  from t2 total_dead_child have 2: "(0::real) \<le> 2" by blast
  from t2 h sk have 3: "\<exists>x. get_total_rss_gb tree_dead_child = Inr x \<and> 0 \<le> x" by blast
  from t2 have 4: "0 \<le> max_total_rss (after (init 30) [Log tree3 15000000000, Stop gone])"
    by blast
  show ?thesis using 1 2 4 sk total_broken total_dead_child by simp
qed

subsection \<open>stop and log\<close>

lemma fmt3_0: "fmt_f 3 0 = ''0.000''" by code_simp
lemma fmt3_1: "fmt_f 3 1 = ''1.000''" by code_simp
lemma fmt3_2: "fmt_f 3 2 = ''2.000''" by code_simp



text \<open>
  C7. When the memory query of the target raises, whatever the exception, \<open>log\<close> ends
  with that exception, the monitor unchanged and nothing printed. When the two queries of
  \<open>log\<close> itself answer, caught failures of the enumeration or of descendants do not
  make \<open>log\<close> raise.
\<close>

theorem log_propagates:
  "(memory_info p = Inl e \<longrightarrow> log_report m p a = (Raised e, m, [])) \<and>
   (memory_info p = Inr mem \<and> uptime p = Inr dt \<and> (\<forall>e. enum_error p = Some e \<longrightarrow> caught e) \<and>
      list_all skippable (descendants p) \<longrightarrow> fst (log_report m p a) = Returned)"
proof (intro conjI impI)
  assume "memory_info p = Inl e"
  then show "log_report m p a = (Raised e, m, [])" by (simp add: log_report_def)
next
  assume h: "memory_info p = Inr mem \<and> uptime p = Inr dt \<and>
             (\<forall>e. enum_error p = Some e \<longrightarrow> caught e) \<and> list_all skippable (descendants p)"
  then have "\<exists>x. get_total_rss_gb p = Inr x"
    by (cases "enum_error p") (blast intro: get_total_skips get_total_no_enum)+
  with h show "fst (log_report m p a) = Returned"
    by (auto simp: log_report_def Let_def)
qed

theorem log_propagates_witness:
  "log_report (init 30) gone 15000000000 = (Raised NoSuchProcess, init 30, []) \<and>
   get_total_rss_gb gone = Inr 0 \<and>
   \<not> list_all queryable (descendants tree_dead_child) \<and>
   fst (log_report (init 30) tree_dead_child 15000000000) = Returned"
proof -
  have g: "memory_info gone = Inl NoSuchProcess"
    by (simp add: gone_def)
  have h: "memory_info tree_dead_child = Inr \<lparr>rss = 500000000, vms = 900000000\<rparr> \<and>
           uptime tree_dead_child = Inr ''0:01:40'' \<and>
           (\<forall>e. enum_error tree_dead_child = Some e \<longrightarrow> caught e) \<and>
           list_all skippable (descendants tree_dead_child)"
    by (simp add: tree_dead_child_def skippable_def)
  have d: "\<not> list_all queryable (descendants tree_dead_child)"
    by (simp add: tree_dead_child_def queryable_def)
  from log_propagates [of gone NoSuchProcess "init 30" 15000000000] g
  have 1: "log_report (init 30) gone 15000000000 = (Raised NoSuchProcess, init 30, [])"
    by blast
  from log_propagates [of tree_dead_child _ "init 30" 15000000000
      "\<lparr>rss = 500000000, vms = 900000000\<rparr>" "''0:01:40''"] h
  have 2: "fst (log_report (init 30) tree_dead_child 15000000000) = Returned"
    by blast
  show ?thesis using 1 2 d total_gone by simp
qed


subsection \<open>The thread of \<open>_run\<close>\<close>

lemma printed_first_Exited:
  "printed_first ls oc = Exited m' out \<longleftrightarrow> (\<exists>out'. oc = Exited m' out' \<and> out = ls @ out')"
  by (cases oc) auto

lemma run_Exited:
  "run m ts = Exited m' out \<longleftrightarrow>
     (\<exists>pre. sampling_loop m ts = Exited m' pre \<and> out = pre @ closing_lines m')"
  by (cases "sampling_loop m ts") (auto simp: run_def)

lemma host_step_quiet:
  "max_total_rss m = 0 \<Longrightarrow> quiet t \<Longrightarrow> max_total_rss (fst (host_step m (host_stop t))) = 0"
  by (cases "host_stop t")
     (auto simp: host_step_def quiet_def zero_total_def stop_def Let_def
           split: sum.splits prod.splits if_splits)

lemma log_quiet:
  "max_total_rss m = 0 \<Longrightarrow> zero_total p \<Longrightarrow> max_total_rss (fst (snd (log_report m p a))) = 0"
  by (auto simp: log_report_def zero_total_def Let_def split: sum.splits)

lemma loop_quiet:
  "list_all quiet ts \<Longrightarrow> max_total_rss m = 0 \<Longrightarrow> sampling_loop m ts = Exited m' pre \<Longrightarrow>
   max_total_rss m' = 0"
proof (induction ts arbitrary: m pre)
  case Nil
  then show ?case by simp
next
  case (Cons t ts)
  obtain m0 out0 where hs: "host_step m (host_stop t) = (m0, out0)"
    by (cases "host_step m (host_stop t)")
  have q: "quiet t" and qs: "list_all quiet ts"
    using Cons.prems(1) by simp_all
  have m0: "max_total_rss m0 = 0"
    using host_step_quiet [OF Cons.prems(2) q] hs by simp
  show ?case
  proof (cases "main_alive t \<and> should_continue m0")
    case False
    with Cons.prems(3) hs m0 show ?thesis
      by (auto simp: printed_first_Exited split: if_splits)
  next
    case True
    obtain c m1 out1 where lg: "log_report m0 (view t) (available t) = (c, m1, out1)"
      by (cases "log_report m0 (view t) (available t)")
    have m1: "max_total_rss m1 = 0"
      using log_quiet [OF m0, of "view t" "available t"] q lg by (simp add: quiet_def)
    from Cons.prems(3) hs True lg
    obtain pre' where "sampling_loop m1 ts = Exited m' pre'"
      by (cases c) (auto simp: printed_first_Exited split: if_splits)
    from Cons.IH [OF qs m1 this] show ?thesis .
  qed
qed


lemma fmt3_5_2: "fmt_f 3 (5 / 2) = ''2.500''" by code_simp
lemma fmt1_16: "fmt_f (Suc 0) 16 = ''16.0''" by code_simp

lemma log_solo:
  "log_report m solo 16000000000 =
     (Returned, m\<lparr>max_total_rss := max (max_total_rss m) 1\<rparr>,
      [''MemoryMonitor Time: 0:00:30   Physical mem: 1.000 GB   Total (with children): 1.000 GB   Virtual mem: 2.500 GB   Available mem: 16.0 GB''])"
proof -
  have "memory_info solo = Inr \<lparr>rss = 1000000000, vms = 2500000000\<rparr>" "uptime solo = Inr ''0:00:30''"
    by (simp_all add: solo_def)
  then show ?thesis
    by (simp add: log_report_def total_solo Let_def report_line_def fmt3_1 fmt3_5_2 fmt1_16 max_def)
qed

lemma log_idle:
  "log_report m idle 16000000000 =
     (Returned, m\<lparr>max_total_rss := max (max_total_rss m) 0\<rparr>,
      [''MemoryMonitor Time: 0:00:01   Physical mem: 0.000 GB   Total (with children): 0.000 GB   Virtual mem: 0.000 GB   Available mem: 16.0 GB''])"
proof -
  have "memory_info idle = Inr \<lparr>rss = 0, vms = 0\<rparr>" "uptime idle = Inr ''0:00:01''"
    "get_total_rss_gb idle = Inr 0"
    by (simp_all add: idle_def get_total_rss_gb_def children_def)
  then show ?thesis
    by (simp add: log_report_def Let_def report_line_def fmt3_0 fmt1_16 max_def)
qed

lemma loop_solo_dead:
  "sampling_loop (init 30) [tick_alive solo, tick_dead tree3] =
     Exited \<lparr>should_continue = True, interval = 30, max_total_rss = 1\<rparr>
       [''MemoryMonitor Time: 0:00:30   Physical mem: 1.000 GB   Total (with children): 1.000 GB   Virtual mem: 2.500 GB   Available mem: 16.0 GB'']"
  by (simp add: tick_alive_def tick_dead_def host_step_def init_def log_solo)

lemma run_solo_dead:
  "run (init 30) [tick_alive solo, tick_dead tree3] =
     Exited \<lparr>should_continue = True, interval = 30, max_total_rss = 1\<rparr>
       [''MemoryMonitor Time: 0:00:30   Physical mem: 1.000 GB   Total (with children): 1.000 GB   Virtual mem: 2.500 GB   Available mem: 16.0 GB'',
        ''MemoryMonitor: Maximum total memory (including children): 1.000 GB'']"
  by (simp add: run_def loop_solo_dead closing_lines_def summary_line_def fmt3_1
      del: sampling_loop.simps)

lemma loop_idle_dead:
  "sampling_loop (init 30) [tick_alive idle, tick_dead tree3] =
     Exited (init 30)
       [''MemoryMonitor Time: 0:00:01   Physical mem: 0.000 GB   Total (with children): 0.000 GB   Virtual mem: 0.000 GB   Available mem: 16.0 GB'']"
  by (simp add: tick_alive_def tick_dead_def host_step_def init_def log_idle)

lemma run_idle_dead:
  "run (init 30) [tick_alive idle, tick_dead tree3] =
     Exited (init 30)
       [''MemoryMonitor Time: 0:00:01   Physical mem: 0.000 GB   Total (with children): 0.000 GB   Virtual mem: 0.000 GB   Available mem: 16.0 GB'']"
  unfolding run_def loop_idle_dead by (simp add: closing_lines_def init_def)

lemma run_dead:
  "run (init 30) [tick_dead tree3] = Exited (init 30) []"
  by (simp add: run_def tick_dead_def host_step_def closing_lines_def init_def)

lemma stop_tree3:
  "stop m tree3 = (Returned, m\<lparr>should_continue := False, max_total_rss := max (max_total_rss m) 2\<rparr>,
     [summary_line (max (max_total_rss m) 2)])"
  by (simp add: stop_def total_tree3 Let_def max_def)

lemma run_stopped:
  "run (init 30) [tick_alive solo, tick_stopped tree3] =
     Exited \<lparr>should_continue = False, interval = 30, max_total_rss = 2\<rparr>
       [''MemoryMonitor Time: 0:00:30   Physical mem: 1.000 GB   Total (with children): 1.000 GB   Virtual mem: 2.500 GB   Available mem: 16.0 GB'',
        ''MemoryMonitor: Maximum total memory (including children): 2.000 GB'',
        ''MemoryMonitor: Maximum total memory (including children): 2.000 GB'']"
  by (simp add: run_def tick_alive_def tick_stopped_def host_step_def init_def log_solo stop_tree3
      closing_lines_def summary_line_def fmt3_2)

text \<open>
  C9. When the loop of \<open>_run\<close> is left, the lines printed are those of the loop,
  followed by the summary line of the stored peak if that peak is greater than 0 and by
  nothing otherwise. A monitor that starts at peak 0 and meets only totals of zero leaves
  the loop with nothing printed after the loop's own lines.
\<close>

theorem closing_summary:
  "(run m ts = Exited m' out \<longrightarrow>
      (\<exists>pre. sampling_loop m ts = Exited m' pre \<and>
         (0 < max_total_rss m' \<longrightarrow> out = pre @ [summary_line (max_total_rss m')]) \<and>
         (\<not> 0 < max_total_rss m' \<longrightarrow> out = pre))) \<and>
   (list_all quiet ts \<and> max_total_rss m = 0 \<and> run m ts = Exited m' out \<longrightarrow>
      sampling_loop m ts = Exited m' out)"
proof (intro conjI impI)
  assume "run m ts = Exited m' out"
  then show "\<exists>pre. sampling_loop m ts = Exited m' pre \<and>
         (0 < max_total_rss m' \<longrightarrow> out = pre @ [summary_line (max_total_rss m')]) \<and>
         (\<not> 0 < max_total_rss m' \<longrightarrow> out = pre)"
    by (auto simp: run_Exited closing_lines_def)
next
  assume h: "list_all quiet ts \<and> max_total_rss m = 0 \<and> run m ts = Exited m' out"
  then obtain pre where p: "sampling_loop m ts = Exited m' pre" "out = pre @ closing_lines m'"
    by (auto simp: run_Exited)
  from h p(1) have "max_total_rss m' = 0" by (blast intro: loop_quiet)
  with p show "sampling_loop m ts = Exited m' out" by (simp add: closing_lines_def)
qed

lemma loop_idle_idle:
  "sampling_loop (init 30) [tick_alive idle, tick_dead idle] =
     Exited (init 30)
       [''MemoryMonitor Time: 0:00:01   Physical mem: 0.000 GB   Total (with children): 0.000 GB   Virtual mem: 0.000 GB   Available mem: 16.0 GB'']"
  by (simp add: tick_alive_def tick_dead_def host_step_def init_def log_idle)

lemma run_idle_idle:
  "run (init 30) [tick_alive idle, tick_dead idle] =
     Exited (init 30)
       [''MemoryMonitor Time: 0:00:01   Physical mem: 0.000 GB   Total (with children): 0.000 GB   Virtual mem: 0.000 GB   Available mem: 16.0 GB'']"
  unfolding run_def loop_idle_idle by (simp add: closing_lines_def init_def)

lemma quiet_idle: "list_all quiet [tick_alive idle, tick_dead idle]"
  by (simp add: quiet_def zero_total_def tick_alive_def tick_dead_def idle_def
      get_total_rss_gb_def children_def)

lemma run_printed_first:
  "(case printed_first ls oc of
      Exited m' out \<Rightarrow> Exited m' (out @ closing_lines m')
    | Died e m' out \<Rightarrow> Died e m' out
    | Running m' out \<Rightarrow> Running m' out) =
   printed_first ls (case oc of
      Exited m' out \<Rightarrow> Exited m' (out @ closing_lines m')
    | Died e m' out \<Rightarrow> Died e m' out
    | Running m' out \<Rightarrow> Running m' out)"
  by (cases oc) simp_all

lemma printed_first_twice: "printed_first ks (printed_first ls oc) = printed_first (ks @ ls) oc"
  by (cases oc) simp_all

lemma host_step_stop_clears:
  "host_step m (Some p) = (m0, out0) \<Longrightarrow> \<not> should_continue m0"
  by (auto simp: host_step_def stop_def Let_def split: sum.splits prod.splits if_splits)

lemma printed_first_Running:
  "printed_first ls oc = Running m' out \<longleftrightarrow> (\<exists>out'. oc = Running m' out' \<and> out = ls @ out')"
  by (cases oc) auto

text \<open>The loop is left once the main thread is dead or \<open>stop\<close> has been called.\<close>

lemma loop_ends:
  "list_ex (\<lambda>t. \<not> main_alive t \<or> host_stop t \<noteq> None) ts \<Longrightarrow> sampling_loop m ts \<noteq> Running m' out"
proof (induction ts arbitrary: m out)
  case Nil
  then show ?case by simp
next
  case (Cons t ts)
  obtain m0 out0 where hs: "host_step m (host_stop t) = (m0, out0)"
    by (cases "host_step m (host_stop t)")
  show ?case
  proof (cases "\<not> main_alive t \<or> host_stop t \<noteq> None")
    case True
    then have "\<not> main_alive t \<or> \<not> should_continue m0"
      using hs host_step_stop_clears [of m _ m0 out0] by auto
    with hs show ?thesis
      by (auto simp: printed_first_Running)
  next
    case False
    with Cons.prems have rest: "list_ex (\<lambda>t. \<not> main_alive t \<or> host_stop t \<noteq> None) ts"
      by simp
    show ?thesis
      using hs Cons.IH [OF rest]
      by (auto simp: printed_first_Running split: prod.splits completion.splits if_splits)
  qed
qed

lemma run_ends:
  "list_ex (\<lambda>t. \<not> main_alive t \<or> host_stop t \<noteq> None) ts \<Longrightarrow> run m ts \<noteq> Running m' out"
  using loop_ends [of ts m m' out]
  by (cases "sampling_loop m ts") (auto simp: run_def)

theorem closing_summary_witness:
  "run (init 30) [tick_alive solo, tick_dead tree3] =
     Exited \<lparr>should_continue = True, interval = 30, max_total_rss = 1\<rparr>
       [''MemoryMonitor Time: 0:00:30   Physical mem: 1.000 GB   Total (with children): 1.000 GB   Virtual mem: 2.500 GB   Available mem: 16.0 GB'',
        ''MemoryMonitor: Maximum total memory (including children): 1.000 GB''] \<and>
   sampling_loop (init 30) [tick_alive solo, tick_dead tree3] =
     Exited \<lparr>should_continue = True, interval = 30, max_total_rss = 1\<rparr>
       [''MemoryMonitor Time: 0:00:30   Physical mem: 1.000 GB   Total (with children): 1.000 GB   Virtual mem: 2.500 GB   Available mem: 16.0 GB''] \<and>
   list_all quiet [tick_alive idle, tick_dead idle] \<and>
   max_total_rss (init 30) = 0 \<and>
   sampling_loop (init 30) [tick_alive idle, tick_dead idle] =
     Exited (init 30)
       [''MemoryMonitor Time: 0:00:01   Physical mem: 0.000 GB   Total (with children): 0.000 GB   Virtual mem: 0.000 GB   Available mem: 16.0 GB'']"
proof -
  have p0: "max_total_rss (init 30) = 0" by (simp add: init_def)
  from closing_summary [of "init 30" "[tick_alive solo, tick_dead tree3]"
      "\<lparr>should_continue = True, interval = 30, max_total_rss = 1\<rparr>"
      "[''MemoryMonitor Time: 0:00:30   Physical mem: 1.000 GB   Total (with children): 1.000 GB   Virtual mem: 2.500 GB   Available mem: 16.0 GB'',
        ''MemoryMonitor: Maximum total memory (including children): 1.000 GB'']"]
    run_solo_dead
  have 1: "sampling_loop (init 30) [tick_alive solo, tick_dead tree3] =
     Exited \<lparr>should_continue = True, interval = 30, max_total_rss = 1\<rparr>
       [''MemoryMonitor Time: 0:00:30   Physical mem: 1.000 GB   Total (with children): 1.000 GB   Virtual mem: 2.500 GB   Available mem: 16.0 GB'']"
    by (auto simp del: sampling_loop.simps)
  from closing_summary [of "init 30" "[tick_alive idle, tick_dead idle]" "init 30"
      "[''MemoryMonitor Time: 0:00:01   Physical mem: 0.000 GB   Total (with children): 0.000 GB   Virtual mem: 0.000 GB   Available mem: 16.0 GB'']"]
    run_idle_idle quiet_idle p0
  have 2: "sampling_loop (init 30) [tick_alive idle, tick_dead idle] =
     Exited (init 30)
       [''MemoryMonitor Time: 0:00:01   Physical mem: 0.000 GB   Total (with children): 0.000 GB   Virtual mem: 0.000 GB   Available mem: 16.0 GB'']"
    by blast
  show ?thesis using 1 2 run_solo_dead quiet_idle p0 by (simp del: sampling_loop.simps)
qed

text \<open>
  C4, as the code has it. At a turn where the loop is left, for either reason (the main
  thread is dead, or \<open>should_continue\<close> is cleared), \<open>_run\<close> takes no sample: the
  monitor is the one the turn began with (after the other thread's \<open>stop\<close>, if any),
  whatever the process tree holds, and the summary line of its peak is printed if that
  peak is greater than 0. At a turn where the loop goes on, \<open>_run\<close> is \<open>log\<close> followed
  by \<open>_run\<close> on the turns that remain. The final sample is that of \<open>stop\<close>.
\<close>

theorem run_exit_no_sample:
  "(host_step m (host_stop t) = (m0, out0) \<and> (\<not> main_alive t \<or> \<not> should_continue m0) \<longrightarrow>
      run m (t # ts) =
        Exited m0 (out0 @ (if 0 < max_total_rss m0
                           then [summary_line (max_total_rss m0)] else []))) \<and>
   (host_step m (host_stop t) = (m0, out0) \<and> main_alive t \<and> should_continue m0 \<and>
    log_report m0 (view t) (available t) = (Returned, m1, out1) \<and> 0 \<le> interval m1 \<longrightarrow>
      run m (t # ts) = printed_first (out0 @ out1) (run m1 ts))"
proof (intro conjI impI)
  assume "host_step m (host_stop t) = (m0, out0) \<and> (\<not> main_alive t \<or> \<not> should_continue m0)"
  then show "run m (t # ts) =
        Exited m0 (out0 @ (if 0 < max_total_rss m0
                           then [summary_line (max_total_rss m0)] else []))"
    by (auto simp: run_def closing_lines_def)
next
  assume "host_step m (host_stop t) = (m0, out0) \<and> main_alive t \<and> should_continue m0 \<and>
    log_report m0 (view t) (available t) = (Returned, m1, out1) \<and> 0 \<le> interval m1"
  then show "run m (t # ts) = printed_first (out0 @ out1) (run m1 ts)"
    by (simp add: run_def run_printed_first printed_first_twice)
qed

theorem run_final_sample_counterexample:
  "run (init 30) [tick_dead tree3] = Exited (init 30) [] \<and>
   get_total_rss_gb (view (tick_dead tree3)) = Inr 2 \<and>
   max_total_rss (init 30) = 0 \<and>
   run (init 30) [tick_alive solo, tick_dead tree3] =
     Exited \<lparr>should_continue = True, interval = 30, max_total_rss = 1\<rparr>
       [''MemoryMonitor Time: 0:00:30   Physical mem: 1.000 GB   Total (with children): 1.000 GB   Virtual mem: 2.500 GB   Available mem: 16.0 GB'',
        ''MemoryMonitor: Maximum total memory (including children): 1.000 GB'']"
  using run_dead run_solo_dead total_tree3
  by (simp add: tick_dead_def init_def del: sampling_loop.simps)

theorem run_exit_no_sample_witness:
  "run (init 30) [tick_dead tree3] = Exited (init 30) [] \<and>
   run (init 30) [tick_stopped tree3] =
     Exited \<lparr>should_continue = False, interval = 30, max_total_rss = 2\<rparr>
       [''MemoryMonitor: Maximum total memory (including children): 2.000 GB'',
        ''MemoryMonitor: Maximum total memory (including children): 2.000 GB''] \<and>
   run (init 30) [tick_alive solo, tick_dead tree3] =
     printed_first
       [''MemoryMonitor Time: 0:00:30   Physical mem: 1.000 GB   Total (with children): 1.000 GB   Virtual mem: 2.500 GB   Available mem: 16.0 GB'']
       (run \<lparr>should_continue = True, interval = 30, max_total_rss = 1\<rparr> [tick_dead tree3])"
proof -
  have a: "host_step (init 30) (host_stop (tick_dead tree3)) = (init 30, []) \<and>
           (\<not> main_alive (tick_dead tree3) \<or> \<not> should_continue (init 30))"
    by (simp add: host_step_def tick_dead_def)
  have b: "host_step (init 30) (host_stop (tick_stopped tree3)) =
             (\<lparr>should_continue = False, interval = 30, max_total_rss = 2\<rparr>,
              [''MemoryMonitor: Maximum total memory (including children): 2.000 GB'']) \<and>
           (\<not> main_alive (tick_stopped tree3) \<or>
            \<not> should_continue \<lparr>should_continue = False, interval = 30, max_total_rss = 2\<rparr>)"
    by (simp add: host_step_def tick_stopped_def stop_tree3 init_def summary_line_def fmt3_2)
  have c: "host_step (init 30) (host_stop (tick_alive solo)) = (init 30, []) \<and>
           main_alive (tick_alive solo) \<and> should_continue (init 30) \<and>
           log_report (init 30) (view (tick_alive solo)) (available (tick_alive solo)) =
             (Returned, \<lparr>should_continue = True, interval = 30, max_total_rss = 1\<rparr>,
              [''MemoryMonitor Time: 0:00:30   Physical mem: 1.000 GB   Total (with children): 1.000 GB   Virtual mem: 2.500 GB   Available mem: 16.0 GB'']) \<and>
           0 \<le> interval \<lparr>should_continue = True, interval = 30, max_total_rss = 1\<rparr>"
    by (simp add: host_step_def tick_alive_def log_solo init_def)
  from run_exit_no_sample [of "init 30" "tick_dead tree3" "init 30" "[]" "[]"] a
  have 1: "run (init 30) [tick_dead tree3] = Exited (init 30) []"
    by (simp add: init_def)
  from run_exit_no_sample [of "init 30" "tick_stopped tree3"
      "\<lparr>should_continue = False, interval = 30, max_total_rss = 2\<rparr>"
      "[''MemoryMonitor: Maximum total memory (including children): 2.000 GB'']" "[]"] b
  have 2: "run (init 30) [tick_stopped tree3] =
     Exited \<lparr>should_continue = False, interval = 30, max_total_rss = 2\<rparr>
       [''MemoryMonitor: Maximum total memory (including children): 2.000 GB'',
        ''MemoryMonitor: Maximum total memory (including children): 2.000 GB'']"
    by (simp add: summary_line_def fmt3_2)
  from run_exit_no_sample [of "init 30" "tick_alive solo" "init 30" "[]" "[tick_dead tree3]"
      "\<lparr>should_continue = True, interval = 30, max_total_rss = 1\<rparr>"
      "[''MemoryMonitor Time: 0:00:30   Physical mem: 1.000 GB   Total (with children): 1.000 GB   Virtual mem: 2.500 GB   Available mem: 16.0 GB'']"] c
  have 3: "run (init 30) [tick_alive solo, tick_dead tree3] =
     printed_first
       [''MemoryMonitor Time: 0:00:30   Physical mem: 1.000 GB   Total (with children): 1.000 GB   Virtual mem: 2.500 GB   Available mem: 16.0 GB'']
       (run \<lparr>should_continue = True, interval = 30, max_total_rss = 1\<rparr> [tick_dead tree3])"
    by simp
  show ?thesis using 1 2 3 by blast
qed

subsection \<open>Two updates of the peak at once\<close>

lemma update_alone_max: "update_alone peak v = max peak v"
  by (simp add: update_alone_def max_def)

lemma steady_step_Stopper:
  "steady p0 a b (peak, ta, tb) \<Longrightarrow> updater_step peak ta = (peak', ta') \<Longrightarrow>
   steady p0 a b (peak', ta', tb)"
  by (cases ta) (auto simp: steady_def split: if_splits)

lemma steady_step_Sampler:
  "steady p0 a b (peak, ta, tb) \<Longrightarrow> updater_step peak tb = (peak', tb') \<Longrightarrow>
   steady p0 a b (peak', ta, tb')"
  by (cases tb) (auto simp: steady_def split: if_splits)

lemma steady_interleave: "steady p0 a b s \<Longrightarrow> steady p0 a b (interleave sched s)"
proof (induction sched arbitrary: s)
  case Nil
  then show ?case by simp
next
  case (Cons th sched)
  obtain peak ta tb where s: "s = (peak, ta, tb)"
    by (cases s)
  show ?case
  proof (cases th)
    case Stopper
    obtain peak' ta' where st: "updater_step peak ta = (peak', ta')"
      by (cases "updater_step peak ta")
    from Cons.prems s st have "steady p0 a b (peak', ta', tb)"
      by (blast intro: steady_step_Stopper)
    from Cons.IH [OF this] show ?thesis
      using s st Stopper by simp
  next
    case Sampler
    obtain peak' tb' where st: "updater_step peak tb = (peak', tb')"
      by (cases "updater_step peak tb")
    from Cons.prems s st have "steady p0 a b (peak', ta, tb')"
      by (blast intro: steady_step_Sampler)
    from Cons.IH [OF this] show ?thesis
      using s st Sampler by simp
  qed
qed

lemma steady_start: "steady peak a b (peak, Testing a, Testing b)"
  by (simp add: steady_def)

lemma sample_Stop_tree3: "sample (Stop tree3) = Some 2"
  using total_tree3 by simp

text \<open>
  C6, as the code has it. The update of the peak is a test followed by an assignment,
  with no lock and no compare-and-set. When the update of \<open>stop\<close> and the update of
  the sampling loop do not overlap, in either order, the peak afterwards is the largest
  of the old peak and the two observed totals. Under every schedule the peak is never
  below the old peak, and once both threads have finished it is not below the smaller of
  the two totals; the larger one can be overwritten. One update alone is what \<open>log\<close>
  and \<open>stop\<close> do to the peak.
\<close>

theorem peak_update_interleaved:
  "interleave [Stopper, Stopper, Sampler, Sampler] (peak, Testing a, Testing b) =
     (max peak (max a b), Finished, Finished) \<and>
   interleave [Sampler, Sampler, Stopper, Stopper] (peak, Testing a, Testing b) =
     (max peak (max a b), Finished, Finished) \<and>
   peak \<le> fst (interleave sched (peak, Testing a, Testing b)) \<and>
   (snd (interleave sched (peak, Testing a, Testing b)) = (Finished, Finished) \<longrightarrow>
      min a b \<le> fst (interleave sched (peak, Testing a, Testing b))) \<and>
   max_total_rss (apply_call m c) =
     (case sample c of Some v \<Rightarrow> update_alone (max_total_rss m) v | None \<Rightarrow> max_total_rss m)"
proof (intro conjI impI)
  show "interleave [Stopper, Stopper, Sampler, Sampler] (peak, Testing a, Testing b) =
     (max peak (max a b), Finished, Finished)"
    by (simp add: max_def)
  show "interleave [Sampler, Sampler, Stopper, Stopper] (peak, Testing a, Testing b) =
     (max peak (max a b), Finished, Finished)"
    by (simp add: max_def)
  have st: "steady peak a b (interleave sched (peak, Testing a, Testing b))"
    by (rule steady_interleave [OF steady_start])
  then show "peak \<le> fst (interleave sched (peak, Testing a, Testing b))"
    by (cases "interleave sched (peak, Testing a, Testing b)") (simp add: steady_def)
  show "max_total_rss (apply_call m c) =
     (case sample c of Some v \<Rightarrow> update_alone (max_total_rss m) v | None \<Rightarrow> max_total_rss m)"
    by (simp add: apply_call_peak update_alone_max split: option.splits)
  assume "snd (interleave sched (peak, Testing a, Testing b)) = (Finished, Finished)"
  with st show "min a b \<le> fst (interleave sched (peak, Testing a, Testing b))"
    by (cases "interleave sched (peak, Testing a, Testing b)") (auto simp: steady_def)
qed

theorem lost_update_counterexample:
  "interleave [Stopper, Sampler, Sampler, Stopper] (0, Testing 5, Testing 7) =
     (5, Finished, Finished) \<and> (5::real) < max 5 7"
  by simp

theorem peak_update_interleaved_witness:
  "interleave [Stopper, Stopper, Sampler, Sampler] (0, Testing 5, Testing 7) =
     (7, Finished, Finished) \<and>
   snd (interleave [Stopper, Sampler, Sampler, Stopper] (0, Testing 5, Testing 7)) =
     (Finished, Finished) \<and>
   min 5 7 \<le> fst (interleave [Stopper, Sampler, Sampler, Stopper] (0, Testing 5, Testing 7)) \<and>
   max_total_rss (apply_call (init 30) (Stop tree3)) = update_alone 0 2"
proof -
  have f: "snd (interleave [Stopper, Sampler, Sampler, Stopper] (0, Testing 5, Testing 7)) =
     (Finished, Finished)"
    by simp
  note t = peak_update_interleaved [of 0 5 7 "[Stopper, Sampler, Sampler, Stopper]"
      "init 30" "Stop tree3"]
  from t have 1: "interleave [Stopper, Stopper, Sampler, Sampler] (0, Testing 5, Testing 7) =
     (7, Finished, Finished)"
    by simp
  from t f have 2:
    "min 5 7 \<le> fst (interleave [Stopper, Sampler, Sampler, Stopper] (0, Testing 5, Testing 7))"
    by blast
  from t sample_Stop_tree3 have 3:
    "max_total_rss (apply_call (init 30) (Stop tree3)) = update_alone 0 2"
    by (simp add: init_def del: sample.simps apply_call.simps)
  show ?thesis using 1 2 3 f by blast
qed

end
